theory Spec2Isabelle
  imports Main "HOL-Library.Word" "HOL-Library.AList" "HOL-Library.Sublist"
begin

unbundle bit_operations_syntax

section \<open>Filesystem model\<close>

text \<open>
  The synchronizer of \<^verbatim>\<open>file_synchronizer.py\<close> works on two directory trees, the source
  and the replica.  A tree is a node: a regular file with its bytes and its modification
  time, or a directory with its entries in the order in which the operating system lists
  them.  A path is the list of its components, read from the root of the tree it addresses
  (\<^verbatim>\<open>os.path.relpath\<close> against one root followed by \<^verbatim>\<open>os.path.join\<close> onto the other
  root keeps this list as it is, so an item of the source enumeration and its replica
  counterpart are the same component list, looked up in the other tree).  The two roots
  are taken to be disjoint directories.  Symbolic links are not modelled.
\<close>

type_synonym byte = "8 word"
type_synonym bytes = "byte list"
type_synonym path = "string list"

datatype node = File bytes int | Dir "(string \<times> node) list"

text \<open>What \<^verbatim>\<open>os.stat\<close> shows of a path: its kind, and for a file its bytes and time.\<close>

datatype entry = EFile bytes int | EDir

datatype error = PermissionError | FileNotFoundError | FileExistsError
  | IsADirectoryError | NotADirectoryError | OSError

fun lookup :: "node \<Rightarrow> path \<Rightarrow> node option" where
  "lookup t [] = Some t"
| "lookup (File bs m) (n # ns) = None"
| "lookup (Dir es) (n # ns) =
     (case map_of es n of None \<Rightarrow> None | Some c \<Rightarrow> lookup c ns)"

fun entry_of :: "node \<Rightarrow> entry" where
  "entry_of (File bs m) = EFile bs m"
| "entry_of (Dir es) = EDir"

definition stat :: "node \<Rightarrow> path \<Rightarrow> entry option" where
  "stat t p = map_option entry_of (lookup t p)"

text \<open>
  \<^verbatim>\<open>os.path.exists\<close> and \<^verbatim>\<open>os.path.isdir\<close>, when \<^verbatim>\<open>os.stat\<close> is answered.  Its
  refusal, and the refusal of a listing, are added in the section on refused system calls.
\<close>

definition path_exists :: "node \<Rightarrow> path \<Rightarrow> bool" where
  "path_exists t p = (lookup t p \<noteq> None)"

definition isdir :: "node \<Rightarrow> path \<Rightarrow> bool" where
  "isdir t p = (case lookup t p of Some (Dir es) \<Rightarrow> True | _ \<Rightarrow> False)"

fun is_dir_node :: "node \<Rightarrow> bool" where
  "is_dir_node (Dir es) = True"
| "is_dir_node (File bs m) = False"

text \<open>
  \<^verbatim>\<open>os.makedirs(name)\<close> with \<^verbatim>\<open>exist_ok=False\<close>: the missing ancestors are created
  first, then the leaf.  An existing leaf is \<^verbatim>\<open>FileExistsError\<close>; a regular file on the
  way is \<^verbatim>\<open>NotADirectoryError\<close>, raised before anything is created.
\<close>

fun mkchain :: "path \<Rightarrow> node" where
  "mkchain [] = Dir []"
| "mkchain (n # ns) = Dir [(n, mkchain ns)]"

fun makedirs :: "node \<Rightarrow> path \<Rightarrow> error + node" where
  "makedirs t [] = Inl FileExistsError"
| "makedirs (File bs m) (n # ns) = Inl NotADirectoryError"
| "makedirs (Dir es) (n # ns) =
     (case map_of es n of
        None \<Rightarrow> Inr (Dir (es @ [(n, mkchain ns)]))
      | Some c \<Rightarrow>
          (case makedirs c ns of
             Inl e \<Rightarrow> Inl e
           | Inr c' \<Rightarrow> Inr (Dir (AList.update n c' es))))"

text \<open>
  Opening a path for writing and storing a file there (the write half of a copy): the
  parent must be an existing directory and the path itself must not be a directory.  The
  root of a tree is never a destination.
\<close>

fun put_file :: "node \<Rightarrow> path \<Rightarrow> bytes \<Rightarrow> int \<Rightarrow> error + node" where
  "put_file t [] bs m = Inl IsADirectoryError"
| "put_file (File bs' m') (n # ns) bs m = Inl NotADirectoryError"
| "put_file (Dir es) [n] bs m =
     (case map_of es n of
        Some (Dir cs) \<Rightarrow> Inl IsADirectoryError
      | _ \<Rightarrow> Inr (Dir (AList.update n (File bs m) es)))"
| "put_file (Dir es) (n # ns) bs m =
     (case map_of es n of
        None \<Rightarrow> Inl FileNotFoundError
      | Some c \<Rightarrow>
          (case put_file c ns bs m of
             Inl e \<Rightarrow> Inl e
           | Inr c' \<Rightarrow> Inr (Dir (AList.update n c' es))))"

text \<open>Removing the entry at a path together with everything below it.\<close>

fun unlink :: "node \<Rightarrow> path \<Rightarrow> node" where
  "unlink t [] = t"
| "unlink (File bs m) (n # ns) = File bs m"
| "unlink (Dir es) [n] = Dir (AList.delete n es)"
| "unlink (Dir es) (n # ns) =
     (case map_of es n of
        None \<Rightarrow> Dir es
      | Some c \<Rightarrow> Dir (AList.update n (unlink c ns) es))"

text \<open>
  \<^verbatim>\<open>os.walk(directory)\<close>, top down: for a directory the triple of its path, the names of
  its subdirectories and the names of its other entries, then the walks of the
  subdirectories in that order.  A root that is not a directory yields nothing.  Here
  every directory can be listed.
\<close>

fun os_walk :: "node \<Rightarrow> (path \<times> string list \<times> string list) list" where
  "os_walk (File bs m) = []"
| "os_walk (Dir es) =
     ([], map fst (filter (\<lambda>e. is_dir_node (snd e)) es),
          map fst (filter (\<lambda>e. \<not> is_dir_node (snd e)) es))
     # concat (map (\<lambda>e. map (\<lambda>(root, dirs, files). (fst e # root, dirs, files))
                              (os_walk (snd e)))
                (filter (\<lambda>e. is_dir_node (snd e)) es))"

text \<open>
  \<^verbatim>\<open>fetch_files_and_dirs\<close>: for every triple of the walk, first the subdirectories joined
  to the triple's root, then the files.
\<close>

definition fetch_files_and_dirs :: "node \<Rightarrow> path list" where
  "fetch_files_and_dirs directory =
     concat (map (\<lambda>(root, dirs, files).
                    map (\<lambda>d. root @ [d]) dirs @ map (\<lambda>f. root @ [f]) files)
                 (os_walk directory))"

section \<open>Content digest\<close>

text \<open>
  \<^verbatim>\<open>hashlib.md5\<close> is MD5 as RFC 1321 defines it: the message is padded to a multiple of
  64 bytes, and every block of sixteen little-endian 32-bit words goes through 64 rounds.
  The round number stays below 64 and the word index below 16, so every table lookup is
  in range.
\<close>

type_synonym u32 = "32 word"

definition md5_K :: "u32 list" where
  "md5_K =
    [0xd76aa478, 0xe8c7b756, 0x242070db, 0xc1bdceee,
     0xf57c0faf, 0x4787c62a, 0xa8304613, 0xfd469501,
     0x698098d8, 0x8b44f7af, 0xffff5bb1, 0x895cd7be,
     0x6b901122, 0xfd987193, 0xa679438e, 0x49b40821,
     0xf61e2562, 0xc040b340, 0x265e5a51, 0xe9b6c7aa,
     0xd62f105d, 0x02441453, 0xd8a1e681, 0xe7d3fbc8,
     0x21e1cde6, 0xc33707d6, 0xf4d50d87, 0x455a14ed,
     0xa9e3e905, 0xfcefa3f8, 0x676f02d9, 0x8d2a4c8a,
     0xfffa3942, 0x8771f681, 0x6d9d6122, 0xfde5380c,
     0xa4beea44, 0x4bdecfa9, 0xf6bb4b60, 0xbebfbc70,
     0x289b7ec6, 0xeaa127fa, 0xd4ef3085, 0x04881d05,
     0xd9d4d039, 0xe6db99e5, 0x1fa27cf8, 0xc4ac5665,
     0xf4292244, 0x432aff97, 0xab9423a7, 0xfc93a039,
     0x655b59c3, 0x8f0ccc92, 0xffeff47d, 0x85845dd1,
     0x6fa87e4f, 0xfe2ce6e0, 0xa3014314, 0x4e0811a1,
     0xf7537e82, 0xbd3af235, 0x2ad7d2bb, 0xeb86d391]"

definition md5_S :: "nat list" where
  "md5_S =
    [7, 12, 17, 22, 7, 12, 17, 22, 7, 12, 17, 22, 7, 12, 17, 22,
     5, 9, 14, 20, 5, 9, 14, 20, 5, 9, 14, 20, 5, 9, 14, 20,
     4, 11, 16, 23, 4, 11, 16, 23, 4, 11, 16, 23, 4, 11, 16, 23,
     6, 10, 15, 21, 6, 10, 15, 21, 6, 10, 15, 21, 6, 10, 15, 21]"

definition rotl32 :: "u32 \<Rightarrow> nat \<Rightarrow> u32" where
  "rotl32 x s = push_bit s x OR drop_bit (32 - s) x"

definition md5_F :: "nat \<Rightarrow> u32 \<Rightarrow> u32 \<Rightarrow> u32 \<Rightarrow> u32" where
  "md5_F i b c d =
     (if i < 16 then (b AND c) OR (NOT b AND d)
      else if i < 32 then (d AND b) OR (NOT d AND c)
      else if i < 48 then b XOR c XOR d
      else c XOR (b OR NOT d))"

definition md5_G :: "nat \<Rightarrow> nat" where
  "md5_G i =
     (if i < 16 then i
      else if i < 32 then (5 * i + 1) mod 16
      else if i < 48 then (3 * i + 5) mod 16
      else (7 * i) mod 16)"

type_synonym md5_state = "u32 \<times> u32 \<times> u32 \<times> u32"

fun md5_round :: "u32 list \<Rightarrow> nat \<Rightarrow> md5_state \<Rightarrow> md5_state" where
  "md5_round M i (a, b, c, d) =
     (d, b + rotl32 (md5_F i b c d + a + md5_K ! i + M ! md5_G i) (md5_S ! i), b, c)"

fun le32 :: "bytes \<Rightarrow> u32" where
  "le32 (b0 # b1 # b2 # b3 # rest) =
     ucast b0 OR push_bit 8 (ucast b1) OR push_bit 16 (ucast b2) OR push_bit 24 (ucast b3)"
| "le32 bs = 0"

fun md5_words :: "nat \<Rightarrow> bytes \<Rightarrow> u32 list" where
  "md5_words 0 bs = []"
| "md5_words (Suc n) bs = le32 bs # md5_words n (drop 4 bs)"

fun md5_block :: "md5_state \<Rightarrow> bytes \<Rightarrow> md5_state" where
  "md5_block (a, b, c, d) blk =
     (case fold (md5_round (md5_words 16 blk)) [0..<64] (a, b, c, d) of
        (a', b', c', d') \<Rightarrow> (a + a', b + b', c + c', d + d'))"

fun md5_blocks :: "nat \<Rightarrow> md5_state \<Rightarrow> bytes \<Rightarrow> md5_state" where
  "md5_blocks 0 st bs = st"
| "md5_blocks (Suc n) st bs = md5_blocks n (md5_block st (take 64 bs)) (drop 64 bs)"

definition u64_bytes :: "64 word \<Rightarrow> bytes" where
  "u64_bytes w = map (\<lambda>i. ucast (drop_bit (8 * i) w)) [0..<8]"

definition md5_pad :: "bytes \<Rightarrow> bytes" where
  "md5_pad bs =
     bs @ [0x80] @ replicate ((119 - length bs mod 64) mod 64) 0
        @ u64_bytes (of_nat (8 * length bs))"

definition md5_init :: md5_state where
  "md5_init = (0x67452301, 0xefcdab89, 0x98badcfe, 0x10325476)"

definition u32_bytes :: "u32 \<Rightarrow> bytes" where
  "u32_bytes w = map (\<lambda>i. ucast (drop_bit (8 * i) w)) [0..<4]"

definition md5 :: "bytes \<Rightarrow> bytes" where
  "md5 bs =
     (case md5_blocks (length (md5_pad bs) div 64) md5_init (md5_pad bs) of
        (a, b, c, d) \<Rightarrow> u32_bytes a @ u32_bytes b @ u32_bytes c @ u32_bytes d)"

definition hex_digit :: "nat \<Rightarrow> char" where
  "hex_digit n = ''0123456789abcdef'' ! n"

definition hex :: "bytes \<Rightarrow> string" where
  "hex bs = concat (map (\<lambda>b. [hex_digit (unat b div 16), hex_digit (unat b mod 16)]) bs)"


text \<open>
  A hash object is modelled by the bytes fed to it so far: \<^verbatim>\<open>update\<close> appends, and
  \<^verbatim>\<open>hexdigest\<close> is the hexadecimal MD5 of everything fed.
\<close>

definition md5_update :: "bytes \<Rightarrow> bytes \<Rightarrow> bytes" where
  "md5_update h chunk = h @ chunk"

definition hexdigest :: "bytes \<Rightarrow> string" where
  "hexdigest h = hex (md5 h)"

text \<open>
  The reading loop of \<^verbatim>\<open>generate_md5\<close>: \<^verbatim>\<open>while chunk:\<close> feeds the chunk and reads
  the next one; \<open>rest\<close> is what the file handle has not delivered yet.
\<close>

function read_loop :: "nat \<Rightarrow> bytes \<Rightarrow> bytes \<Rightarrow> bytes \<Rightarrow> bytes" where
  "read_loop chunk_size h chunk rest =
     (if chunk \<noteq> []
      then read_loop chunk_size (md5_update h chunk) (take chunk_size rest) (drop chunk_size rest)
      else h)"
  by pat_completeness auto
termination
  by (relation "measure (\<lambda>(n, h, chunk, rest). length chunk + length rest)")
     (auto simp: min_def)

definition md5_of_content :: "nat \<Rightarrow> bytes \<Rightarrow> string" where
  "md5_of_content chunk_size content =
     hexdigest (read_loop chunk_size [] (take chunk_size content) (drop chunk_size content))"

text \<open>Two 128-byte messages with the same MD5 digest (Wang and Yu, 2005).\<close>

definition collision_a :: bytes where
  "collision_a =
    [0xd1, 0x31, 0xdd, 0x02, 0xc5, 0xe6, 0xee, 0xc4, 0x69, 0x3d, 0x9a, 0x06, 0x98, 0xaf, 0xf9, 0x5c,
     0x2f, 0xca, 0xb5, 0x87, 0x12, 0x46, 0x7e, 0xab, 0x40, 0x04, 0x58, 0x3e, 0xb8, 0xfb, 0x7f, 0x89,
     0x55, 0xad, 0x34, 0x06, 0x09, 0xf4, 0xb3, 0x02, 0x83, 0xe4, 0x88, 0x83, 0x25, 0x71, 0x41, 0x5a,
     0x08, 0x51, 0x25, 0xe8, 0xf7, 0xcd, 0xc9, 0x9f, 0xd9, 0x1d, 0xbd, 0xf2, 0x80, 0x37, 0x3c, 0x5b,
     0xd8, 0x82, 0x3e, 0x31, 0x56, 0x34, 0x8f, 0x5b, 0xae, 0x6d, 0xac, 0xd4, 0x36, 0xc9, 0x19, 0xc6,
     0xdd, 0x53, 0xe2, 0xb4, 0x87, 0xda, 0x03, 0xfd, 0x02, 0x39, 0x63, 0x06, 0xd2, 0x48, 0xcd, 0xa0,
     0xe9, 0x9f, 0x33, 0x42, 0x0f, 0x57, 0x7e, 0xe8, 0xce, 0x54, 0xb6, 0x70, 0x80, 0xa8, 0x0d, 0x1e,
     0xc6, 0x98, 0x21, 0xbc, 0xb6, 0xa8, 0x83, 0x93, 0x96, 0xf9, 0x65, 0x2b, 0x6f, 0xf7, 0x2a, 0x70]"

definition collision_b :: bytes where
  "collision_b =
    [0xd1, 0x31, 0xdd, 0x02, 0xc5, 0xe6, 0xee, 0xc4, 0x69, 0x3d, 0x9a, 0x06, 0x98, 0xaf, 0xf9, 0x5c,
     0x2f, 0xca, 0xb5, 0x07, 0x12, 0x46, 0x7e, 0xab, 0x40, 0x04, 0x58, 0x3e, 0xb8, 0xfb, 0x7f, 0x89,
     0x55, 0xad, 0x34, 0x06, 0x09, 0xf4, 0xb3, 0x02, 0x83, 0xe4, 0x88, 0x83, 0x25, 0xf1, 0x41, 0x5a,
     0x08, 0x51, 0x25, 0xe8, 0xf7, 0xcd, 0xc9, 0x9f, 0xd9, 0x1d, 0xbd, 0x72, 0x80, 0x37, 0x3c, 0x5b,
     0xd8, 0x82, 0x3e, 0x31, 0x56, 0x34, 0x8f, 0x5b, 0xae, 0x6d, 0xac, 0xd4, 0x36, 0xc9, 0x19, 0xc6,
     0xdd, 0x53, 0xe2, 0x34, 0x87, 0xda, 0x03, 0xfd, 0x02, 0x39, 0x63, 0x06, 0xd2, 0x48, 0xcd, 0xa0,
     0xe9, 0x9f, 0x33, 0x42, 0x0f, 0x57, 0x7e, 0xe8, 0xce, 0x54, 0xb6, 0x70, 0x80, 0x28, 0x0d, 0x1e,
     0xc6, 0x98, 0x21, 0xbc, 0xb6, 0xa8, 0x83, 0x93, 0x96, 0xf9, 0x65, 0xab, 0x6f, 0xf7, 0x2a, 0x70]"


section \<open>The environment: operations that fail\<close>

text \<open>
  Whether the operating system refuses an operation (no permission, disk full, a read
  error of the device) is outside the program.  The environment is a function that, for
  every filesystem operation the synchronizer issues, either lets it through or names the
  error it raises.  A refused operation leaves the tree as it was; what \<^verbatim>\<open>makedirs\<close>,
  \<^verbatim>\<open>copy2\<close> and \<^verbatim>\<open>rmtree\<close> may have done before they fail is added in the section
  on refused system calls.
\<close>

datatype side = Source | Replica

datatype fsop = Makedirs path | Copy2 path path | Rmtree path | Remove path
  | OpenRead side path | OpenAppend path

type_synonym env = "fsop \<Rightarrow> error option"

definition no_faults :: env where
  "no_faults = (\<lambda>operation. None)"

definition os_makedirs :: "env \<Rightarrow> node \<Rightarrow> path \<Rightarrow> error + node" where
  "os_makedirs flt t p =
     (case flt (Makedirs p) of Some e \<Rightarrow> Inl e | None \<Rightarrow> makedirs t p)"

definition basename :: "path \<Rightarrow> path" where
  "basename p = drop (length p - 1) p"

text \<open>
  \<^verbatim>\<open>shutil.copy2(src, dst)\<close>: a destination that is a directory receives the file under
  the source's base name; content and modification time are both copied.
\<close>

definition shutil_copy2 :: "env \<Rightarrow> node \<Rightarrow> path \<Rightarrow> node \<Rightarrow> path \<Rightarrow> error + node" where
  "shutil_copy2 flt s src r dst =
     (case flt (Copy2 src dst) of
        Some e \<Rightarrow> Inl e
      | None \<Rightarrow>
          (case lookup s src of
             None \<Rightarrow> Inl FileNotFoundError
           | Some (Dir es) \<Rightarrow> Inl IsADirectoryError
           | Some (File bs m) \<Rightarrow>
               put_file r (if isdir r dst then dst @ basename src else dst) bs m))"

definition shutil_rmtree :: "env \<Rightarrow> node \<Rightarrow> path \<Rightarrow> error + node" where
  "shutil_rmtree flt t p =
     (case flt (Rmtree p) of
        Some e \<Rightarrow> Inl e
      | None \<Rightarrow>
          (case lookup t p of
             None \<Rightarrow> Inl FileNotFoundError
           | Some (File bs m) \<Rightarrow> Inl NotADirectoryError
           | Some (Dir es) \<Rightarrow> Inr (unlink t p)))"

definition os_remove :: "env \<Rightarrow> node \<Rightarrow> path \<Rightarrow> error + node" where
  "os_remove flt t p =
     (case flt (Remove p) of
        Some e \<Rightarrow> Inl e
      | None \<Rightarrow>
          (case lookup t p of
             None \<Rightarrow> Inl FileNotFoundError
           | Some (Dir es) \<Rightarrow> Inl IsADirectoryError
           | Some (File bs m) \<Rightarrow> Inr (unlink t p)))"

text \<open>\<^verbatim>\<open>open(path, "rb")\<close> and reading the file to its end.\<close>

definition open_read :: "env \<Rightarrow> side \<Rightarrow> node \<Rightarrow> path \<Rightarrow> error + bytes" where
  "open_read flt sd t p =
     (case flt (OpenRead sd p) of
        Some e \<Rightarrow> Inl e
      | None \<Rightarrow>
          (case lookup t p of
             None \<Rightarrow> Inl FileNotFoundError
           | Some (Dir es) \<Rightarrow> Inl IsADirectoryError
           | Some (File bs m) \<Rightarrow> Inr bs))"

section \<open>The synchronizer\<close>

definition generate_md5 :: "env \<Rightarrow> side \<Rightarrow> node \<Rightarrow> path \<Rightarrow> error + string" where
  "generate_md5 flt sd t p =
     (case open_read flt sd t p of
        Inl e \<Rightarrow> Inl e
      | Inr content \<Rightarrow> Inr (md5_of_content 4096 content))"

text \<open>\<^verbatim>\<open>files_equal(l, r)\<close>: the left digest is computed first, then the right one.\<close>

definition files_equal :: "env \<Rightarrow> node \<Rightarrow> path \<Rightarrow> node \<Rightarrow> path \<Rightarrow> error + bool" where
  "files_equal flt s l r' r =
     (case generate_md5 flt Source s l of
        Inl e \<Rightarrow> Inl e
      | Inr dl \<Rightarrow>
          (case generate_md5 flt Replica r' r of
             Inl e \<Rightarrow> Inl e
           | Inr dr \<Rightarrow> Inr (dl = dr)))"

text \<open>
  The log: every mutation the synchronizer performs is logged at level debug, every
  mutation refused with a permission error at level warning.
\<close>

datatype mutation = CreateDir path | CopyFile path | RemoveDir path | RemoveFile path

datatype logrec = Debug mutation | Warning mutation

fun is_warning :: "logrec \<Rightarrow> bool" where
  "is_warning (Warning x) = True"
| "is_warning (Debug x) = False"

record state =
  replica :: node
  logged :: "logrec list"

text \<open>
  A function that can raise returns the exception, if any, together with the state it
  leaves behind: what was done before the exception stays done.
\<close>

type_synonym outcome = "error option \<times> state"

definition log_debug :: "mutation \<Rightarrow> state \<Rightarrow> state" where
  "log_debug x st = st\<lparr>logged := logged st @ [Debug x]\<rparr>"

definition log_warning :: "mutation \<Rightarrow> state \<Rightarrow> state" where
  "log_warning x st = st\<lparr>logged := logged st @ [Warning x]\<rparr>"

text \<open>
  \<^verbatim>\<open>try: ... except PermissionError\<close> around one mutation: success is logged at debug,
  a permission error is logged as a warning and swallowed, any other error propagates.
\<close>

definition try_mutation :: "mutation \<Rightarrow> error + node \<Rightarrow> state \<Rightarrow> outcome" where
  "try_mutation x res st =
     (case res of
        Inr t' \<Rightarrow> (None, log_debug x (st\<lparr>replica := t'\<rparr>))
      | Inl e \<Rightarrow> (if e = PermissionError then (None, log_warning x st) else (Some e, st)))"

text \<open>The body of the loop of \<^verbatim>\<open>update_replica\<close>, for one item of the source list.\<close>

definition update_item :: "env \<Rightarrow> node \<Rightarrow> path \<Rightarrow> state \<Rightarrow> outcome" where
  "update_item flt s p st =
     (if isdir s p then
        (if \<not> path_exists (replica st) p
         then try_mutation (CreateDir p) (os_makedirs flt (replica st) p) st
         else (None, st))
      else
        (if \<not> path_exists (replica st) p
         then try_mutation (CopyFile p) (shutil_copy2 flt s p (replica st) p) st
         else
           (case files_equal flt s p (replica st) p of
              Inl e \<Rightarrow> (Some e, st)
            | Inr eq \<Rightarrow>
                (if \<not> eq
                 then try_mutation (CopyFile p) (shutil_copy2 flt s p (replica st) p) st
                 else (None, st)))))"

fun update_replica :: "env \<Rightarrow> node \<Rightarrow> path list \<Rightarrow> state \<Rightarrow> outcome" where
  "update_replica flt s [] st = (None, st)"
| "update_replica flt s (p # items_to_sync) st =
     (case update_item flt s p st of
        (Some e, st') \<Rightarrow> (Some e, st')
      | (None, st') \<Rightarrow> update_replica flt s items_to_sync st')"

text \<open>The body of the loop of \<^verbatim>\<open>cleanup_replica\<close>, for one item of the replica list.\<close>

definition cleanup_item :: "env \<Rightarrow> node \<Rightarrow> path \<Rightarrow> state \<Rightarrow> outcome" where
  "cleanup_item flt s p st =
     (if \<not> path_exists s p \<and> path_exists (replica st) p then
        (if isdir (replica st) p
         then try_mutation (RemoveDir p) (shutil_rmtree flt (replica st) p) st
         else try_mutation (RemoveFile p) (os_remove flt (replica st) p) st)
      else (None, st))"

fun cleanup_replica :: "env \<Rightarrow> node \<Rightarrow> path list \<Rightarrow> state \<Rightarrow> outcome" where
  "cleanup_replica flt s [] st = (None, st)"
| "cleanup_replica flt s (p # items_to_verify) st =
     (case cleanup_item flt s p st of
        (Some e, st') \<Rightarrow> (Some e, st')
      | (None, st') \<Rightarrow> cleanup_replica flt s items_to_verify st')"

text \<open>
  One pass: the source is enumerated and the replica updated; then the replica, as the
  update left it, is enumerated and cleaned up.
\<close>

definition synchronize_directories :: "env \<Rightarrow> node \<Rightarrow> state \<Rightarrow> outcome" where
  "synchronize_directories flt s st =
     (case update_replica flt s (fetch_files_and_dirs s) st of
        (Some e, st') \<Rightarrow> (Some e, st')
      | (None, st') \<Rightarrow> cleanup_replica flt s (fetch_files_and_dirs (replica st')) st')"

text \<open>A pass is clean when it raised nothing and logged no warning.\<close>

definition clean :: "outcome \<Rightarrow> bool" where
  "clean res = (fst res = None \<and> filter is_warning (logged (snd res)) = [])"



text \<open>
  An item of the source list is in sync in a replica tree when a source directory exists
  there and a source file is a file there with the same digest.
\<close>

definition in_sync :: "node \<Rightarrow> node \<Rightarrow> path \<Rightarrow> bool" where
  "in_sync s r p =
     (case stat s p of
        None \<Rightarrow> False
      | Some EDir \<Rightarrow> stat r p \<noteq> None
      | Some (EFile bs m) \<Rightarrow>
          (case stat r p of
             Some (EFile bs' m') \<Rightarrow> md5_of_content 4096 bs' = md5_of_content 4096 bs
           | _ \<Rightarrow> False))"

section \<open>The scheduler\<close>

text \<open>
  The loop of \<^verbatim>\<open>run\<close> never returns.  Its state is the time of the last dispatch, the
  thread held in the variable \<^verbatim>\<open>t\<close> (by its number) and the threads started so far, each with the
  answer \<^verbatim>\<open>is_alive()\<close> would give.  What happens to it is a sequence of events: the
  loop wakes up from \<^verbatim>\<open>time.sleep(1)\<close> and reads the clock, or a worker thread comes to
  its end (the pass returned or raised).  Times are in microseconds, the resolution of
  \<^verbatim>\<open>datetime\<close>; the period is in seconds.
\<close>

record sched =
  prev_call_time :: int
  t_thread :: nat
  threads :: "bool list"

datatype event = Tick int | Finish nat

definition is_alive :: "sched \<Rightarrow> nat \<Rightarrow> bool" where
  "is_alive s i = (i < length (threads s) \<and> threads s ! i)"

definition start_thread :: "sched \<Rightarrow> sched" where
  "start_thread s = s\<lparr>t_thread := length (threads s), threads := threads s @ [True]\<rparr>"

definition timedelta :: "int \<Rightarrow> int" where
  "timedelta seconds = seconds * 1000000"

definition run_start :: "int \<Rightarrow> sched" where
  "run_start now = start_thread \<lparr>prev_call_time = now, t_thread = 0, threads = []\<rparr>"

definition loop_body :: "int \<Rightarrow> int \<Rightarrow> sched \<Rightarrow> sched" where
  "loop_body period curr_call_time s =
     (if curr_call_time - prev_call_time s \<ge> timedelta period \<and> \<not> is_alive s (t_thread s)
      then start_thread (s\<lparr>prev_call_time := curr_call_time\<rparr>)
      else s)"

fun run :: "int \<Rightarrow> sched \<Rightarrow> event list \<Rightarrow> sched" where
  "run period s [] = s"
| "run period s (Tick now # evs) = run period (loop_body period now s) evs"
| "run period s (Finish i # evs) = run period (s\<lparr>threads := (threads s)[i := False]\<rparr>) evs"

text \<open>The number of passes executing, and the number dispatched so far.\<close>

definition running :: "sched \<Rightarrow> nat" where
  "running s = length (filter id (threads s))"

definition dispatched :: "sched \<Rightarrow> nat" where
  "dispatched s = length (threads s)"


text \<open>The invariant of the loop: no thread but the one held in \<^verbatim>\<open>t\<close> is alive.\<close>

definition one_worker :: "sched \<Rightarrow> bool" where
  "one_worker s \<longleftrightarrow> (\<forall>i. is_alive s i \<longrightarrow> i = t_thread s)"

section \<open>Refused system calls\<close>

text \<open>
  The functions above answer \<^verbatim>\<open>os.path.exists\<close>, \<^verbatim>\<open>os.path.isdir\<close> and the listing
  of a directory from the tree, and let a refused mutation fail before it has changed
  anything.  The operating system can do otherwise:
  \<^item> \<^verbatim>\<open>os.stat\<close> can be refused (a directory on the way is not searchable); then
    \<^verbatim>\<open>os.path.exists\<close> and \<^verbatim>\<open>os.path.isdir\<close> answer \<^verbatim>\<open>False\<close> whatever is there;
  \<^item> the listing of a directory can be refused; \<^verbatim>\<open>os.walk\<close>, called without
    \<^verbatim>\<open>onerror\<close>, then skips that directory without raising;
  \<^item> \<^verbatim>\<open>os.makedirs\<close> may have created some of the leading directories,
    \<^verbatim>\<open>shutil.copy2\<close> may have created or written the destination, and
    \<^verbatim>\<open>shutil.rmtree\<close> may have removed entries below the directory before they raise.
  The record below adds these to the refusals of the operations; what a refused operation
  had done before it failed is the environment's choice.  The primed functions are the
  synchronizer over such an environment.  They agree with the unprimed ones on every pass
  in which no \<^verbatim>\<open>os.stat\<close> and no listing is refused and which raises nothing and logs
  no warning.
\<close>

record os =
  refuses :: env
  stat_refused :: "side \<Rightarrow> path \<Rightarrow> bool"
  listing_refused :: "side \<Rightarrow> path \<Rightarrow> bool"
  made_first :: "path \<Rightarrow> nat"
  written_first :: "path \<Rightarrow> (bytes \<times> int) option"
  removed_first :: "path \<Rightarrow> path list"

text \<open>An operating system that refuses nothing but what the given environment refuses.\<close>

definition plain_os :: "env \<Rightarrow> os" where
  "plain_os flt =
     \<lparr>refuses = flt, stat_refused = (\<lambda>sd p. False), listing_refused = (\<lambda>sd p. False),
      made_first = (\<lambda>p. 0), written_first = (\<lambda>p. None), removed_first = (\<lambda>p. [])\<rparr>"

definition path_exists' :: "os \<Rightarrow> side \<Rightarrow> node \<Rightarrow> path \<Rightarrow> bool" where
  "path_exists' sys sd t p = (\<not> stat_refused sys sd p \<and> path_exists t p)"

definition isdir' :: "os \<Rightarrow> side \<Rightarrow> node \<Rightarrow> path \<Rightarrow> bool" where
  "isdir' sys sd t p = (\<not> stat_refused sys sd p \<and> isdir t p)"

text \<open>
  \<^verbatim>\<open>os.walk\<close> with the listings that are refused: \<open>here\<close> is the path of the directory
  being walked.  Whether an entry is a directory comes with the listing itself.
\<close>

fun os_walk' :: "os \<Rightarrow> side \<Rightarrow> path \<Rightarrow> node \<Rightarrow> (path \<times> string list \<times> string list) list" where
  "os_walk' sys sd here (File bs m) = []"
| "os_walk' sys sd here (Dir es) =
     (if listing_refused sys sd here then []
      else (here, map fst (filter (\<lambda>e. is_dir_node (snd e)) es),
                 map fst (filter (\<lambda>e. \<not> is_dir_node (snd e)) es))
           # concat (map (\<lambda>e. os_walk' sys sd (here @ [fst e]) (snd e))
                      (filter (\<lambda>e. is_dir_node (snd e)) es)))"

definition fetch_files_and_dirs' :: "os \<Rightarrow> side \<Rightarrow> node \<Rightarrow> path list" where
  "fetch_files_and_dirs' sys sd directory =
     concat (map (\<lambda>(root, dirs, files).
                    map (\<lambda>d. root @ [d]) dirs @ map (\<lambda>f. root @ [f]) files)
                 (os_walk' sys sd [] directory))"

text \<open>
  An operation returns the exception it raises, if any, and the tree it leaves.
\<close>

type_synonym attempt = "error option \<times> node"

definition os_makedirs' :: "os \<Rightarrow> node \<Rightarrow> path \<Rightarrow> attempt" where
  "os_makedirs' sys t p =
     (case refuses sys (Makedirs p) of
        None \<Rightarrow> (case makedirs t p of Inl e \<Rightarrow> (Some e, t) | Inr t' \<Rightarrow> (None, t'))
      | Some e \<Rightarrow>
          (Some e,
           (case makedirs t (take (min (made_first sys p) (length p - 1)) p) of
              Inl e' \<Rightarrow> t
            | Inr t' \<Rightarrow> t')))"

definition shutil_copy2' :: "os \<Rightarrow> node \<Rightarrow> path \<Rightarrow> node \<Rightarrow> path \<Rightarrow> attempt" where
  "shutil_copy2' sys s src r dst =
     (let target = (if isdir' sys Replica r dst then dst @ basename src else dst) in
      case refuses sys (Copy2 src dst) of
        None \<Rightarrow>
          (case lookup s src of
             None \<Rightarrow> (Some FileNotFoundError, r)
           | Some (Dir es) \<Rightarrow> (Some IsADirectoryError, r)
           | Some (File bs m) \<Rightarrow>
               (case put_file r target bs m of
                  Inl e \<Rightarrow> (Some e, r)
                | Inr r' \<Rightarrow> (None, r')))
      | Some e \<Rightarrow>
          (Some e,
           (case written_first sys dst of
              None \<Rightarrow> r
            | Some (bs', m') \<Rightarrow>
                (case put_file r target bs' m' of Inl e' \<Rightarrow> r | Inr r' \<Rightarrow> r'))))"

definition shutil_rmtree' :: "os \<Rightarrow> node \<Rightarrow> path \<Rightarrow> attempt" where
  "shutil_rmtree' sys t p =
     (case refuses sys (Rmtree p) of
        None \<Rightarrow>
          (case lookup t p of
             None \<Rightarrow> (Some FileNotFoundError, t)
           | Some (File bs m) \<Rightarrow> (Some NotADirectoryError, t)
           | Some (Dir es) \<Rightarrow> (None, unlink t p))
      | Some e \<Rightarrow>
          (Some e,
           fold (\<lambda>q t'. unlink t' (p @ q)) (filter (\<lambda>q. q \<noteq> []) (removed_first sys p)) t))"

text \<open>\<^verbatim>\<open>os.remove\<close> is one system call: refused, it has removed nothing.\<close>

definition os_remove' :: "os \<Rightarrow> node \<Rightarrow> path \<Rightarrow> attempt" where
  "os_remove' sys t p =
     (case os_remove (refuses sys) t p of Inl e \<Rightarrow> (Some e, t) | Inr t' \<Rightarrow> (None, t'))"

definition try_mutation' :: "mutation \<Rightarrow> attempt \<Rightarrow> state \<Rightarrow> outcome" where
  "try_mutation' x res st =
     (case res of
        (None, t') \<Rightarrow> (None, log_debug x (st\<lparr>replica := t'\<rparr>))
      | (Some e, t') \<Rightarrow>
          (if e = PermissionError then (None, log_warning x (st\<lparr>replica := t'\<rparr>))
           else (Some e, st\<lparr>replica := t'\<rparr>)))"

definition update_item' :: "os \<Rightarrow> node \<Rightarrow> path \<Rightarrow> state \<Rightarrow> outcome" where
  "update_item' sys s p st =
     (if isdir' sys Source s p then
        (if \<not> path_exists' sys Replica (replica st) p
         then try_mutation' (CreateDir p) (os_makedirs' sys (replica st) p) st
         else (None, st))
      else
        (if \<not> path_exists' sys Replica (replica st) p
         then try_mutation' (CopyFile p) (shutil_copy2' sys s p (replica st) p) st
         else
           (case files_equal (refuses sys) s p (replica st) p of
              Inl e \<Rightarrow> (Some e, st)
            | Inr eq \<Rightarrow>
                (if \<not> eq
                 then try_mutation' (CopyFile p) (shutil_copy2' sys s p (replica st) p) st
                 else (None, st)))))"

fun update_replica' :: "os \<Rightarrow> node \<Rightarrow> path list \<Rightarrow> state \<Rightarrow> outcome" where
  "update_replica' sys s [] st = (None, st)"
| "update_replica' sys s (p # items_to_sync) st =
     (case update_item' sys s p st of
        (Some e, st') \<Rightarrow> (Some e, st')
      | (None, st') \<Rightarrow> update_replica' sys s items_to_sync st')"

definition cleanup_item' :: "os \<Rightarrow> node \<Rightarrow> path \<Rightarrow> state \<Rightarrow> outcome" where
  "cleanup_item' sys s p st =
     (if \<not> path_exists' sys Source s p \<and> path_exists' sys Replica (replica st) p then
        (if isdir' sys Replica (replica st) p
         then try_mutation' (RemoveDir p) (shutil_rmtree' sys (replica st) p) st
         else try_mutation' (RemoveFile p) (os_remove' sys (replica st) p) st)
      else (None, st))"

fun cleanup_replica' :: "os \<Rightarrow> node \<Rightarrow> path list \<Rightarrow> state \<Rightarrow> outcome" where
  "cleanup_replica' sys s [] st = (None, st)"
| "cleanup_replica' sys s (p # items_to_verify) st =
     (case cleanup_item' sys s p st of
        (Some e, st') \<Rightarrow> (Some e, st')
      | (None, st') \<Rightarrow> cleanup_replica' sys s items_to_verify st')"

definition synchronize_directories' :: "os \<Rightarrow> node \<Rightarrow> state \<Rightarrow> outcome" where
  "synchronize_directories' sys s st =
     (case update_replica' sys s (fetch_files_and_dirs' sys Source s) st of
        (Some e, st') \<Rightarrow> (Some e, st')
      | (None, st') \<Rightarrow>
          cleanup_replica' sys s (fetch_files_and_dirs' sys Replica (replica st')) st')"

section \<open>Start-up\<close>







section \<open>The program\<close>


section \<open>Properties\<close>

subsection \<open>What stat shows after each operation\<close>

lemma stat_Nil [simp]: "stat t [] = Some (entry_of t)"
  by (simp add: stat_def)

lemma stat_File_nonempty [simp]: "q \<noteq> [] \<Longrightarrow> stat (File bs m) q = None"
  by (cases q) (simp_all add: stat_def)

lemma stat_Dir_Cons:
  "stat (Dir es) (n # ns) = (case map_of es n of None \<Rightarrow> None | Some c \<Rightarrow> stat c ns)"
  by (simp add: stat_def split: option.splits)

lemma stat_mkchain: "stat (mkchain ns) q = (if prefix q ns then Some EDir else None)"
proof (induction ns arbitrary: q)
  case Nil
  then show ?case by (cases q) (simp_all add: stat_Dir_Cons)
next
  case (Cons n ns)
  then show ?case by (cases q) (simp_all add: stat_Dir_Cons)
qed

lemma stat_prefix_closed: "stat t (p @ q) \<noteq> None \<Longrightarrow> stat t p \<noteq> None"
  by (induction t p rule: lookup.induct) (auto simp: stat_Dir_Cons split: option.splits)

lemma stat_prefix_None: "stat t p = None \<Longrightarrow> prefix p q \<Longrightarrow> stat t q = None"
  using stat_prefix_closed by (fastforce simp: prefix_def)

lemma stat_makedirs:
  "makedirs t p = Inr t' \<Longrightarrow>
   stat t' q = (if stat t q = None \<and> prefix q p then Some EDir else stat t q)"
proof (induction t p arbitrary: t' q rule: makedirs.induct)
  case (1 t)
  then show ?case by simp
next
  case (2 bs m n ns)
  then show ?case by simp
next
  case (3 es n ns)
  show ?case
  proof (cases q)
    case Nil
    with 3 show ?thesis by (auto split: option.splits sum.splits)
  next
    case (Cons k ks)
    show ?thesis
    proof (cases "map_of es n")
      case None
      with 3 Cons show ?thesis
        by (auto simp: stat_Dir_Cons stat_mkchain map_add_def split: option.splits)
    next
      case (Some c)
      with 3 Cons show ?thesis
        by (auto simp: stat_Dir_Cons update_conv' split: option.splits sum.splits)
    qed
  qed
qed

lemma stat_put_file:
  "put_file t p bs m = Inr t' \<Longrightarrow>
   stat t' q = (if q = p then Some (EFile bs m) else stat t q)"
proof (induction t p bs m arbitrary: t' q rule: put_file.induct)
  case (3 es n bs m)
  then show ?case
    by (cases q) (auto simp: stat_Dir_Cons update_conv' split: option.splits node.splits)
next
  case (4 es n v va bs m)
  then show ?case
    by (cases q) (auto simp: stat_Dir_Cons update_conv' split: option.splits sum.splits)
qed simp_all

lemma stat_unlink:
  "p \<noteq> [] \<Longrightarrow> stat (unlink t p) q = (if prefix p q then None else stat t q)"
proof (induction t p arbitrary: q rule: unlink.induct)
  case (2 bs m n ns)
  then show ?case by (cases q) auto
next
  case (3 es n)
  then show ?case
    by (cases q) (auto simp: stat_Dir_Cons delete_conv' split: option.splits)
next
  case (4 es n v va)
  then show ?case
    by (cases q) (auto simp: stat_Dir_Cons update_conv' split: option.splits)
qed auto

subsection \<open>The tests of the program, read through stat\<close>

lemma path_exists_stat: "path_exists t p \<longleftrightarrow> stat t p \<noteq> None"
  by (simp add: path_exists_def stat_def)

lemma isdir_stat: "isdir t p \<longleftrightarrow> stat t p = Some EDir"
  by (auto simp: isdir_def stat_def split: option.splits node.splits)


lemma lookup_File_stat: "lookup t p = Some (File bs m) \<longleftrightarrow> stat t p = Some (EFile bs m)"
  by (cases "lookup t p"; cases "the (lookup t p)") (auto simp: stat_def)

lemma stat_cases:
  "(stat t p = None \<and> lookup t p = None)
   \<or> (\<exists>bs m. stat t p = Some (EFile bs m) \<and> lookup t p = Some (File bs m))
   \<or> (\<exists>es. stat t p = Some EDir \<and> lookup t p = Some (Dir es))"
  by (cases "lookup t p"; cases "the (lookup t p)") (auto simp: stat_def)



subsection \<open>The digest\<close>

declare read_loop.simps [simp del]

lemma read_loop_concat:
  "0 < n \<Longrightarrow> read_loop n h chunk rest = (if chunk = [] then h else h @ chunk @ rest)"
proof (induction n h chunk rest rule: read_loop.induct)
  case (1 n h chunk rest)
  show ?case
  proof (cases "chunk = []")
    case True
    then show ?thesis by (subst read_loop.simps) simp
  next
    case False
    have "read_loop n h chunk rest
        = read_loop n (md5_update h chunk) (take n rest) (drop n rest)"
      using False by (subst read_loop.simps) simp
    also have "\<dots> = (if take n rest = [] then md5_update h chunk
                       else md5_update h chunk @ take n rest @ drop n rest)"
      using "1.IH" [OF False "1.prems"] .
    also have "\<dots> = h @ chunk @ rest"
      using "1.prems" by (simp add: md5_update_def)
    finally show ?thesis using False by simp
  qed
qed

lemma md5_of_content_hexdigest: "0 < n \<Longrightarrow> md5_of_content n content = hexdigest content"
proof -
  assume n: "0 < n"
  show ?thesis
    using n by (simp add: md5_of_content_def read_loop_concat [OF n])
qed

subsection \<open>The operations of one step\<close>

lemma try_mutation_cases:
  assumes "try_mutation x res st = (ex, st')"
  shows "(\<exists>t'. res = Inr t' \<and> ex = None \<and> st' = log_debug x (st\<lparr>replica := t'\<rparr>))
    \<or> (res = Inl PermissionError \<and> ex = None \<and> st' = log_warning x st)
    \<or> (\<exists>e. res = Inl e \<and> e \<noteq> PermissionError \<and> ex = Some e \<and> st' = st)"
  using assms by (cases res) (auto simp: try_mutation_def split: if_splits)

lemma generate_md5_Inr:
  "generate_md5 flt sd t p = Inr d \<Longrightarrow>
   \<exists>bs m. stat t p = Some (EFile bs m) \<and> d = md5_of_content 4096 bs \<and> flt (OpenRead sd p) = None"
  using stat_cases [of t p]
  by (auto simp: generate_md5_def open_read_def split: option.splits sum.splits node.splits)

lemma files_equal_Inr:
  assumes "files_equal flt s l r' r = Inr b"
  shows "\<exists>bs m bs' m'. stat s l = Some (EFile bs m) \<and> stat r' r = Some (EFile bs' m')
     \<and> b = (md5_of_content 4096 bs = md5_of_content 4096 bs')"
proof -
  from assms obtain dl dr where dl: "generate_md5 flt Source s l = Inr dl"
    and dr: "generate_md5 flt Replica r' r = Inr dr" and b: "b = (dl = dr)"
    by (auto simp: files_equal_def split: sum.splits)
  from generate_md5_Inr [OF dl] generate_md5_Inr [OF dr] b show ?thesis by auto
qed

lemma shutil_copy2_Inr:
  assumes "shutil_copy2 flt s p r p = Inr t'" and "\<not> isdir r p"
  shows "\<exists>bs m. stat s p = Some (EFile bs m) \<and> put_file r p bs m = Inr t'"
  using assms stat_cases [of s p]
  by (auto simp: shutil_copy2_def split: option.splits node.splits)

lemma os_makedirs_Inr: "os_makedirs flt t p = Inr t' \<Longrightarrow> makedirs t p = Inr t'"
  by (auto simp: os_makedirs_def split: option.splits)

subsection \<open>The equality oracle\<close>

lemma hexdigest_collision_a: "hexdigest collision_a = ''79054025255fb1a26e4bc422aef54eb4''"
  by code_simp

lemma hexdigest_collision_b: "hexdigest collision_b = ''79054025255fb1a26e4bc422aef54eb4''"
  by code_simp

lemma collisions_differ: "collision_a \<noteq> collision_b"
  by (simp add: collision_a_def collision_b_def)

text \<open>
  Claim C2, amended.  For two existing files that can be opened and read,
  \<^verbatim>\<open>files_equal\<close> returns whether the MD5 digests of their contents are equal (reading in
  chunks of 4096 bytes gives the digest of the whole content).  Byte-identical contents
  therefore always give true; the converse holds only as far as MD5 has no collision.
\<close>

theorem files_equal_compares_digests:
  assumes "stat s l = Some (EFile bl ml)" and "stat r' r = Some (EFile br mr)"
    and "flt (OpenRead Source l) = None" and "flt (OpenRead Replica r) = None"
  shows "files_equal flt s l r' r = Inr (hexdigest bl = hexdigest br)
     \<and> (bl = br \<longrightarrow> files_equal flt s l r' r = Inr True)"
proof -
  from assms(1) have "lookup s l = Some (File bl ml)" by (simp add: lookup_File_stat)
  moreover from assms(2) have "lookup r' r = Some (File br mr)" by (simp add: lookup_File_stat)
  ultimately have "files_equal flt s l r' r = Inr (hexdigest bl = hexdigest br)"
    using assms(3,4)
    by (simp add: files_equal_def generate_md5_def open_read_def md5_of_content_hexdigest)
  then show ?thesis by simp
qed

theorem files_equal_compares_digests_witness:
  "stat (Dir [(''a'', File [1, 2] 10)]) [''a''] = Some (EFile [1, 2] 10)
   \<and> stat (Dir [(''b'', File [1, 2] 99)]) [''b''] = Some (EFile [1, 2] 99)
   \<and> files_equal no_faults (Dir [(''a'', File [1, 2] 10)]) [''a'']
        (Dir [(''b'', File [1, 2] 99)]) [''b''] = Inr True"
proof -
  have a: "stat (Dir [(''a'', File [1, 2] 10)]) [''a''] = Some (EFile [1, 2] 10)"
    by code_simp
  have b: "stat (Dir [(''b'', File [1, 2] 99)]) [''b''] = Some (EFile [1, 2] 99)"
    by code_simp
  have c: "no_faults (OpenRead Source [''a'']) = None" "no_faults (OpenRead Replica [''b'']) = None"
    by (simp_all add: no_faults_def)
  from files_equal_compares_digests [OF a b c] a b show ?thesis by simp
qed

text \<open>
  As stated the claim fails: the two messages of Wang and Yu differ and have the same
  MD5 digest, so \<^verbatim>\<open>files_equal\<close> returns true on two files that are not byte-identical.
\<close>

theorem files_equal_counterexample:
  "files_equal no_faults (Dir [(''a'', File collision_a 0)]) [''a'']
       (Dir [(''a'', File collision_b 0)]) [''a''] = Inr True
   \<and> collision_a \<noteq> collision_b"
  by (simp add: files_equal_def generate_md5_def open_read_def no_faults_def
        md5_of_content_hexdigest hexdigest_collision_a hexdigest_collision_b collisions_differ)

subsection \<open>One step of the update loop\<close>

lemma update_item_cases:
  assumes "update_item flt s p st = (ex, st')"
  shows "(ex = None \<and> st' = st \<and> in_sync s (replica st) p)
    \<or> (\<exists>e. ex = Some e \<and> st' = st)
    \<or> (ex = None \<and> st' = log_warning (CreateDir p) st)
    \<or> (ex = None \<and> st' = log_warning (CopyFile p) st)
    \<or> (\<exists>t'. ex = None \<and> stat s p = Some EDir \<and> stat (replica st) p = None
          \<and> makedirs (replica st) p = Inr t'
          \<and> st' = log_debug (CreateDir p) (st\<lparr>replica := t'\<rparr>))
    \<or> (\<exists>bs m t'. ex = None \<and> stat s p = Some (EFile bs m)
          \<and> put_file (replica st) p bs m = Inr t'
          \<and> st' = log_debug (CopyFile p) (st\<lparr>replica := t'\<rparr>))"
proof (cases "isdir s p")
  case True
  then have sd: "stat s p = Some EDir" by (simp add: isdir_stat)
  show ?thesis
  proof (cases "path_exists (replica st) p")
    case True
    with \<open>isdir s p\<close> assms sd show ?thesis
      by (auto simp: update_item_def in_sync_def path_exists_stat)
  next
    case False
    with \<open>isdir s p\<close> assms
    have "try_mutation (CreateDir p) (os_makedirs flt (replica st) p) st = (ex, st')"
      by (simp add: update_item_def)
    from try_mutation_cases [OF this] sd False show ?thesis
      by (auto simp: path_exists_stat dest: os_makedirs_Inr)
  qed
next
  case nd: False
  have copy: ?thesis
    if tm: "try_mutation (CopyFile p) (shutil_copy2 flt s p (replica st) p) st = (ex, st')"
      and r: "\<not> isdir (replica st) p"
  proof -
    from try_mutation_cases [OF tm] show ?thesis
    proof (elim disjE exE conjE)
      fix t' assume res: "shutil_copy2 flt s p (replica st) p = Inr t'"
        and "ex = None" "st' = log_debug (CopyFile p) (st\<lparr>replica := t'\<rparr>)"
      with shutil_copy2_Inr [OF res r] show ?thesis by blast
    qed auto
  qed
  show ?thesis
  proof (cases "path_exists (replica st) p")
    case False
    with nd assms
    have "try_mutation (CopyFile p) (shutil_copy2 flt s p (replica st) p) st = (ex, st')"
      by (simp add: update_item_def)
    moreover from False have "\<not> isdir (replica st) p"
      by (simp add: isdir_stat path_exists_stat)
    ultimately show ?thesis by (rule copy)
  next
    case True
    show ?thesis
    proof (cases "files_equal flt s p (replica st) p")
      case (Inl e)
      with nd True assms show ?thesis by (auto simp: update_item_def)
    next
      case (Inr eq)
      from files_equal_Inr [OF Inr] obtain bs m bs' m' where
        f: "stat s p = Some (EFile bs m)" "stat (replica st) p = Some (EFile bs' m')"
          "eq = (md5_of_content 4096 bs = md5_of_content 4096 bs')"
        by blast
      show ?thesis
      proof (cases eq)
        case True
        with nd \<open>path_exists (replica st) p\<close> assms Inr f show ?thesis
          by (auto simp: update_item_def in_sync_def)
      next
        case False
        with nd \<open>path_exists (replica st) p\<close> assms Inr
        have "try_mutation (CopyFile p) (shutil_copy2 flt s p (replica st) p) st = (ex, st')"
          by (simp add: update_item_def)
        moreover from f have "\<not> isdir (replica st) p" by (simp add: isdir_stat)
        ultimately show ?thesis by (rule copy)
      qed
    qed
  qed
qed

lemma update_item_effect:
  assumes "update_item flt s p st = (ex, st')"
  shows "replica st' = replica st
    \<or> (stat s p = Some EDir \<and> stat (replica st) p = None
         \<and> makedirs (replica st) p = Inr (replica st'))
    \<or> (\<exists>bs m. stat s p = Some (EFile bs m)
         \<and> put_file (replica st) p bs m = Inr (replica st'))"
  using update_item_cases [OF assms]
  by (elim disjE exE conjE) (simp_all add: log_debug_def log_warning_def)




subsection \<open>The update loop\<close>






subsection \<open>The enumeration reaches every entry\<close>

lemma fetch_Dir:
  "set (fetch_files_and_dirs (Dir es)) =
     {[n] | n c. (n, c) \<in> set es}
     \<union> {n # q | n c q. (n, c) \<in> set es \<and> is_dir_node c \<and> q \<in> set (fetch_files_and_dirs c)}"
  by (fastforce simp: fetch_files_and_dirs_def image_iff)

lemma fetch_complete:
  "stat t p \<noteq> None \<Longrightarrow> p \<noteq> [] \<Longrightarrow> p \<in> set (fetch_files_and_dirs t)"
proof (induction t p rule: lookup.induct)
  case (1 t)
  then show ?case by simp
next
  case (2 bs m n ns)
  then show ?case by simp
next
  case (3 es n ns)
  from "3.prems" obtain c where c: "map_of es n = Some c" and st: "stat c ns \<noteq> None"
    by (auto simp: stat_Dir_Cons split: option.splits)
  from c have mem: "(n, c) \<in> set es" by (rule map_of_SomeD)
  show ?case
  proof (cases "ns = []")
    case True
    with mem show ?thesis by (auto simp: fetch_Dir)
  next
    case False
    with st have "is_dir_node c" by (cases c) auto
    moreover from "3.IH" [OF c st False] have "ns \<in> set (fetch_files_and_dirs c)" .
    ultimately show ?thesis using mem by (auto simp: fetch_Dir)
  qed
qed

subsection \<open>One step of the cleanup loop\<close>

lemma shutil_rmtree_Inr:
  "shutil_rmtree flt t p = Inr t' \<Longrightarrow> t' = unlink t p \<and> stat t p = Some EDir"
  using stat_cases [of t p]
  by (auto simp: shutil_rmtree_def split: option.splits node.splits)

lemma os_remove_Inr:
  "os_remove flt t p = Inr t' \<Longrightarrow> t' = unlink t p \<and> (\<exists>bs m. stat t p = Some (EFile bs m))"
  using stat_cases [of t p]
  by (auto simp: os_remove_def split: option.splits node.splits)

lemma cleanup_item_cases:
  assumes "cleanup_item flt s p st = (ex, st')"
  shows "(ex = None \<and> st' = st \<and> (stat s p \<noteq> None \<or> stat (replica st) p = None))
    \<or> (\<exists>e. ex = Some e \<and> st' = st)
    \<or> (ex = None \<and> st' = log_warning (RemoveDir p) st)
    \<or> (ex = None \<and> st' = log_warning (RemoveFile p) st)
    \<or> (ex = None \<and> stat s p = None \<and> stat (replica st) p = Some EDir \<and> p \<noteq> []
          \<and> st' = log_debug (RemoveDir p) (st\<lparr>replica := unlink (replica st) p\<rparr>))
    \<or> (ex = None \<and> stat s p = None \<and> (\<exists>bs m. stat (replica st) p = Some (EFile bs m))
          \<and> p \<noteq> []
          \<and> st' = log_debug (RemoveFile p) (st\<lparr>replica := unlink (replica st) p\<rparr>))"
proof (cases "\<not> path_exists s p \<and> path_exists (replica st) p")
  case False
  with assms show ?thesis by (auto simp: cleanup_item_def path_exists_stat)
next
  case True
  then have sp: "stat s p = None" and ne: "p \<noteq> []"
    by (auto simp: path_exists_stat)
  show ?thesis
  proof (cases "isdir (replica st) p")
    case d: True
    with True assms
    have "try_mutation (RemoveDir p) (shutil_rmtree flt (replica st) p) st = (ex, st')"
      by (simp add: cleanup_item_def)
    from try_mutation_cases [OF this] sp ne show ?thesis
      by (auto dest!: shutil_rmtree_Inr)
  next
    case d: False
    with True assms
    have "try_mutation (RemoveFile p) (os_remove flt (replica st) p) st = (ex, st')"
      by (simp add: cleanup_item_def)
    from try_mutation_cases [OF this] sp ne show ?thesis
      by (auto dest!: os_remove_Inr)
  qed
qed

lemma cleanup_item_logged:
  assumes "cleanup_item flt s p st = (ex, st')"
  shows "\<exists>l. logged st' = logged st @ l"
  using cleanup_item_cases [OF assms]
  by (elim disjE exE conjE) (simp_all add: log_debug_def log_warning_def)

lemma cleanup_item_stat:
  assumes "cleanup_item flt s p st = (None, st')"
    and "filter is_warning (logged st') = []"
  shows "stat (replica st') q =
    (if stat s p = None \<and> prefix p q then None else stat (replica st) q)"
  using cleanup_item_cases [OF assms(1)] assms(2)
  by (elim disjE exE conjE)
     (auto simp: log_debug_def log_warning_def stat_unlink stat_prefix_None)

subsection \<open>The cleanup loop\<close>

lemma cleanup_replica_logged:
  "cleanup_replica flt s items st = (ex, st') \<Longrightarrow> \<exists>l. logged st' = logged st @ l"
proof (induction items arbitrary: st)
  case Nil
  then show ?case by simp
next
  case (Cons p items)
  obtain ex1 st1 where step: "cleanup_item flt s p st = (ex1, st1)" by force
  from cleanup_item_logged [OF step] obtain l1 where l1: "logged st1 = logged st @ l1" by auto
  show ?case
  proof (cases ex1)
    case None
    with Cons.prems step have "cleanup_replica flt s items st1 = (ex, st')" by simp
    from Cons.IH [OF this] l1 show ?thesis by auto
  next
    case (Some e)
    with Cons.prems step l1 show ?thesis by auto
  qed
qed

lemma cleanup_replica_stat:
  "cleanup_replica flt s items st = (None, st') \<Longrightarrow> filter is_warning (logged st') = [] \<Longrightarrow>
   stat (replica st') q =
     (if \<exists>p\<in>set items. stat s p = None \<and> prefix p q then None else stat (replica st) q)"
proof (induction items arbitrary: st)
  case Nil
  then show ?case by simp
next
  case (Cons p items)
  obtain ex1 st1 where step: "cleanup_item flt s p st = (ex1, st1)" by force
  with Cons.prems(1) have ex1: "ex1 = None" by (cases ex1) auto
  with Cons.prems(1) step have rest: "cleanup_replica flt s items st1 = (None, st')" by simp
  from cleanup_replica_logged [OF rest] Cons.prems(2)
  have nw: "filter is_warning (logged st1) = []" by auto
  from step ex1 have step': "cleanup_item flt s p st = (None, st1)" by simp
  show ?case
    unfolding Cons.IH [OF rest Cons.prems(2)] cleanup_item_stat [OF step' nw]
    by auto
qed

lemma cleanup_replica_result:
  assumes "cleanup_replica flt s (fetch_files_and_dirs (replica st)) st = (None, st')"
    and "filter is_warning (logged st') = []" and "q \<noteq> []"
  shows "stat (replica st') q = (if stat s q = None then None else stat (replica st) q)"
proof (cases "stat s q = None")
  case True
  show ?thesis
  proof (cases "stat (replica st) q = None")
    case True
    then show ?thesis
      unfolding cleanup_replica_stat [OF assms(1,2)] by auto
  next
    case False
    from fetch_complete [OF this assms(3)] \<open>stat s q = None\<close>
    have "\<exists>p\<in>set (fetch_files_and_dirs (replica st)). stat s p = None \<and> prefix p q"
      by auto
    then show ?thesis
      unfolding cleanup_replica_stat [OF assms(1,2)] using \<open>stat s q = None\<close> by simp
  qed
next
  case False
  have "\<not> (\<exists>p. stat s p = None \<and> prefix p q)"
  proof
    assume "\<exists>p. stat s p = None \<and> prefix p q"
    then obtain p where "stat s p = None" "prefix p q" by blast
    then have "stat s q = None" by (rule stat_prefix_None)
    with False show False by simp
  qed
  then have "\<not> (\<exists>p\<in>set (fetch_files_and_dirs (replica st)). stat s p = None \<and> prefix p q)"
    by blast
  then have "stat (replica st') q = stat (replica st) q"
    by (subst cleanup_replica_stat [OF assms(1,2)]) (rule if_not_P)
  with False show ?thesis by auto
qed

subsection \<open>A pass over a replica that is already in sync\<close>





subsection \<open>What a clean pass leaves behind\<close>




subsection \<open>Passes in which no stat and no listing is refused\<close>

lemma os_walk'_answered:
  "\<forall>q. \<not> listing_refused sys sd q \<Longrightarrow>
   os_walk' sys sd here t = map (\<lambda>(root, dirs, files). (here @ root, dirs, files)) (os_walk t)"
proof (induction t arbitrary: here rule: os_walk.induct)
  case (1 bs m)
  then show ?case by simp
next
  case (2 es)
  have "os_walk' sys sd (here @ [fst e]) (snd e)
      = map (\<lambda>(root, dirs, files). (here @ root, dirs, files))
          (map (\<lambda>(root, dirs, files). (fst e # root, dirs, files)) (os_walk (snd e)))"
    if "e \<in> set (filter (\<lambda>e. is_dir_node (snd e)) es)" for e
    using "2.IH" [OF that "2.prems", of "here @ [fst e]"]
    by (simp add: case_prod_beta)
  then have "map (\<lambda>e. os_walk' sys sd (here @ [fst e]) (snd e))
               (filter (\<lambda>e. is_dir_node (snd e)) es)
      = map (\<lambda>e. map (\<lambda>(root, dirs, files). (here @ root, dirs, files))
                 (map (\<lambda>(root, dirs, files). (fst e # root, dirs, files)) (os_walk (snd e))))
          (filter (\<lambda>e. is_dir_node (snd e)) es)"
    by (intro map_cong refl) blast
  then have "concat (map (\<lambda>e. os_walk' sys sd (here @ [fst e]) (snd e))
               (filter (\<lambda>e. is_dir_node (snd e)) es))
      = concat (map (\<lambda>e. map (\<lambda>(root, dirs, files). (here @ root, dirs, files))
                 (map (\<lambda>(root, dirs, files). (fst e # root, dirs, files)) (os_walk (snd e))))
          (filter (\<lambda>e. is_dir_node (snd e)) es))"
    by (rule arg_cong)
  with "2.prems" show ?case
    by (simp add: map_concat comp_def)
qed

lemma fetch'_answered:
  "\<forall>q. \<not> listing_refused sys sd q \<Longrightarrow> fetch_files_and_dirs' sys sd t = fetch_files_and_dirs t"
  by (simp add: fetch_files_and_dirs'_def fetch_files_and_dirs_def os_walk'_answered
        case_prod_beta comp_def)

lemma try_mutation'_clean:
  assumes "try_mutation' x res st = (None, st')" and "filter is_warning (logged st') = []"
  shows "fst res = None \<and> st' = log_debug x (st\<lparr>replica := snd res\<rparr>)"
  using assms
  by (cases res; cases "fst res")
     (auto simp: try_mutation'_def log_warning_def split: if_splits)



lemma shutil_rmtree'_done:
  "shutil_rmtree' sys t p = (None, t') \<Longrightarrow> shutil_rmtree (refuses sys) t p = Inr t'"
  by (auto simp: shutil_rmtree'_def shutil_rmtree_def split: option.splits node.splits)

lemma os_remove'_done: "os_remove' sys t p = (None, t') \<Longrightarrow> os_remove (refuses sys) t p = Inr t'"
  by (auto simp: os_remove'_def split: sum.splits)

lemma try_mutation_done: "try_mutation x (Inr t') st = (None, log_debug x (st\<lparr>replica := t'\<rparr>))"
  by (simp add: try_mutation_def)


lemma cleanup_item'_clean:
  assumes "cleanup_item' sys s p st = (None, st')" and "filter is_warning (logged st') = []"
    and "\<forall>sd q. \<not> stat_refused sys sd q"
  shows "cleanup_item (refuses sys) s p st = (None, st')"
proof -
  have ex: "path_exists' sys sd t q = path_exists t q" and d: "isdir' sys sd t q = isdir t q"
    for sd t q
    using assms(3) by (simp_all add: path_exists'_def isdir'_def)
  have rt: "try_mutation (RemoveDir p) (shutil_rmtree (refuses sys) (replica st) p) st = (None, st')"
    if "try_mutation' (RemoveDir p) (shutil_rmtree' sys (replica st) p) st = (None, st')"
  proof -
    from try_mutation'_clean [OF that assms(2)]
    have "shutil_rmtree' sys (replica st) p = (None, snd (shutil_rmtree' sys (replica st) p))"
      and st': "st' = log_debug (RemoveDir p) (st\<lparr>replica := snd (shutil_rmtree' sys (replica st) p)\<rparr>)"
      by (simp_all add: prod_eq_iff)
    from shutil_rmtree'_done [OF this(1)] st' show ?thesis by (simp add: try_mutation_done)
  qed
  have rm: "try_mutation (RemoveFile p) (os_remove (refuses sys) (replica st) p) st = (None, st')"
    if "try_mutation' (RemoveFile p) (os_remove' sys (replica st) p) st = (None, st')"
  proof -
    from try_mutation'_clean [OF that assms(2)]
    have "os_remove' sys (replica st) p = (None, snd (os_remove' sys (replica st) p))"
      and st': "st' = log_debug (RemoveFile p) (st\<lparr>replica := snd (os_remove' sys (replica st) p)\<rparr>)"
      by (simp_all add: prod_eq_iff)
    from os_remove'_done [OF this(1)] st' show ?thesis by (simp add: try_mutation_done)
  qed
  from assms(1) show ?thesis
    unfolding cleanup_item'_def cleanup_item_def ex d
    by (auto split: if_splits intro: rt rm)
qed

lemma try_mutation'_logged: "try_mutation' x res st = (ex, st') \<Longrightarrow> \<exists>l. logged st' = logged st @ l"
  by (cases res; cases "fst res")
     (auto simp: try_mutation'_def log_warning_def log_debug_def split: if_splits)


lemma cleanup_item'_logged:
  "cleanup_item' sys s p st = (ex, st') \<Longrightarrow> \<exists>l. logged st' = logged st @ l"
  by (auto simp: cleanup_item'_def split: if_splits dest: try_mutation'_logged)


lemma cleanup_replica'_logged:
  "cleanup_replica' sys s items st = (ex, st') \<Longrightarrow> \<exists>l. logged st' = logged st @ l"
proof (induction items arbitrary: st)
  case Nil
  then show ?case by simp
next
  case (Cons p items)
  obtain ex1 st1 where step: "cleanup_item' sys s p st = (ex1, st1)" by force
  from cleanup_item'_logged [OF step] obtain l1 where l1: "logged st1 = logged st @ l1" by auto
  show ?case
  proof (cases ex1)
    case None
    with Cons.prems step have "cleanup_replica' sys s items st1 = (ex, st')" by simp
    from Cons.IH [OF this] l1 show ?thesis by auto
  next
    case (Some e)
    with Cons.prems step l1 show ?thesis by auto
  qed
qed


lemma cleanup_replica'_clean:
  "cleanup_replica' sys s items st = (None, st') \<Longrightarrow> filter is_warning (logged st') = [] \<Longrightarrow>
   \<forall>sd q. \<not> stat_refused sys sd q \<Longrightarrow> cleanup_replica (refuses sys) s items st = (None, st')"
proof (induction items arbitrary: st)
  case Nil
  then show ?case by simp
next
  case (Cons p items)
  obtain ex1 st1 where step: "cleanup_item' sys s p st = (ex1, st1)" by force
  with Cons.prems(1) have ex1: "ex1 = None" by (cases ex1) auto
  with Cons.prems(1) step have rest: "cleanup_replica' sys s items st1 = (None, st')" by simp
  from cleanup_replica'_logged [OF rest] Cons.prems(2)
  have "filter is_warning (logged st1) = []" by auto
  with step ex1 Cons.prems(3) have "cleanup_item (refuses sys) s p st = (None, st1)"
    by (auto intro: cleanup_item'_clean)
  with Cons.IH [OF rest Cons.prems(2,3)] show ?case by simp
qed


subsection \<open>Convergence\<close>


text \<open>
  A pass can raise nothing and log no warning and still leave the replica different from
  the source, when a listing or a stat is refused.  An unlistable directory of the replica
  is never entered by the enumeration, so what it holds beyond the source stays; and a
  source path whose stat is refused counts as missing, so its replica counterpart is
  removed.
\<close>

lemma unlistable_replica_directory_keeps_its_entries:
  "clean (synchronize_directories'
       ((plain_os no_faults)\<lparr>listing_refused := (\<lambda>sd p. sd = Replica \<and> p = [''d''])\<rparr>)
       (Dir [(''d'', Dir [])])
       \<lparr>replica = Dir [(''d'', Dir [(''junk'', File [] 0)])], logged = []\<rparr>)
   \<and> replica (snd (synchronize_directories'
       ((plain_os no_faults)\<lparr>listing_refused := (\<lambda>sd p. sd = Replica \<and> p = [''d''])\<rparr>)
       (Dir [(''d'', Dir [])])
       \<lparr>replica = Dir [(''d'', Dir [(''junk'', File [] 0)])], logged = []\<rparr>))
     = Dir [(''d'', Dir [(''junk'', File [] 0)])]"
  by code_simp

lemma refused_source_stat_removes_replica_file:
  "synchronize_directories'
       ((plain_os no_faults)\<lparr>listing_refused := (\<lambda>sd p. sd = Source \<and> p = [''sub'']),
          stat_refused := (\<lambda>sd p. sd = Source \<and> p = [''sub'', ''f''])\<rparr>)
       (Dir [(''sub'', Dir [(''f'', File [1] 0)])])
       \<lparr>replica = Dir [(''sub'', Dir [(''f'', File [1] 0)])], logged = []\<rparr>
     = (None, \<lparr>replica = Dir [(''sub'', Dir [])],
                logged = [Debug (RemoveFile [''sub'', ''f''])]\<rparr>)"
  by code_simp




subsection \<open>The pruner\<close>

lemma cleanup_clean_result:
  "(clean (cleanup_item flt s p st) \<longrightarrow>
      snd (cleanup_item flt s p st) =
        (if \<not> path_exists s p \<and> path_exists (replica st) p
         then log_debug (if isdir (replica st) p then RemoveDir p else RemoveFile p)
                (st\<lparr>replica := unlink (replica st) p\<rparr>)
         else st))
   \<and> (clean (cleanup_replica flt s (fetch_files_and_dirs (replica st)) st) \<longrightarrow> q \<noteq> [] \<longrightarrow>
        stat (replica (snd (cleanup_replica flt s (fetch_files_and_dirs (replica st)) st))) q =
          (if path_exists s q then stat (replica st) q else None))"
proof (intro conjI impI)
  assume c: "clean (cleanup_item flt s p st)"
  obtain st' where step: "cleanup_item flt s p st = (None, st')"
    and nw: "filter is_warning (logged st') = []"
    using c by (cases "cleanup_item flt s p st") (auto simp: clean_def)
  from cleanup_item_cases [OF step] nw
  have "st' = (if \<not> path_exists s p \<and> path_exists (replica st) p
         then log_debug (if isdir (replica st) p then RemoveDir p else RemoveFile p)
                (st\<lparr>replica := unlink (replica st) p\<rparr>)
         else st)"
    by (elim disjE exE conjE)
       (auto simp: path_exists_stat isdir_stat log_warning_def)
  with step show "snd (cleanup_item flt s p st) =
        (if \<not> path_exists s p \<and> path_exists (replica st) p
         then log_debug (if isdir (replica st) p then RemoveDir p else RemoveFile p)
                (st\<lparr>replica := unlink (replica st) p\<rparr>)
         else st)"
    by simp
next
  let ?res = "cleanup_replica flt s (fetch_files_and_dirs (replica st)) st"
  assume c: "clean ?res" and q: "q \<noteq> []"
  obtain st' where loop: "?res = (None, st')"
    and nw: "filter is_warning (logged st') = []"
    using c by (cases ?res) (auto simp: clean_def)
  from cleanup_replica_result [OF loop nw q] loop
  show "stat (replica (snd ?res)) q = (if path_exists s q then stat (replica st) q else None)"
    by (auto simp: path_exists_stat)
qed

text \<open>
  Claim C3, amended.  Provided the operating system refuses no stat and no listing and
  the cleanup raises nothing and logs no warning: an entry of the replica enumeration is
  deleted exactly when its path is absent from the source and it still exists when its
  turn comes, a directory with all below it in one \<^verbatim>\<open>rmtree\<close> and a file by one
  \<^verbatim>\<open>remove\<close>; and once the whole enumeration of the replica has been run through,
  the replica holds exactly those of its entries whose paths exist in the source.
\<close>

theorem pruner_of_answered_pass:
  assumes "\<forall>sd q. \<not> stat_refused sys sd q" and "\<forall>sd q. \<not> listing_refused sys sd q"
  shows "(clean (cleanup_item' sys s p st) \<longrightarrow>
      snd (cleanup_item' sys s p st) =
        (if \<not> path_exists s p \<and> path_exists (replica st) p
         then log_debug (if isdir (replica st) p then RemoveDir p else RemoveFile p)
                (st\<lparr>replica := unlink (replica st) p\<rparr>)
         else st))
   \<and> (clean (cleanup_replica' sys s (fetch_files_and_dirs' sys Replica (replica st)) st)
        \<longrightarrow> q \<noteq> [] \<longrightarrow>
        stat (replica (snd (cleanup_replica' sys s
                (fetch_files_and_dirs' sys Replica (replica st)) st))) q =
          (if path_exists s q then stat (replica st) q else None))"
proof (intro conjI impI)
  assume c: "clean (cleanup_item' sys s p st)"
  then obtain st' where step: "cleanup_item' sys s p st = (None, st')"
    and nw: "filter is_warning (logged st') = []"
    by (cases "cleanup_item' sys s p st") (auto simp: clean_def)
  from cleanup_item'_clean [OF step nw assms(1)]
  have eq: "cleanup_item' sys s p st = cleanup_item (refuses sys) s p st"
    by (simp add: step)
  with c have "clean (cleanup_item (refuses sys) s p st)" by simp
  with cleanup_clean_result [of "refuses sys" s p st] eq
  show "snd (cleanup_item' sys s p st) =
        (if \<not> path_exists s p \<and> path_exists (replica st) p
         then log_debug (if isdir (replica st) p then RemoveDir p else RemoveFile p)
                (st\<lparr>replica := unlink (replica st) p\<rparr>)
         else st)"
    by simp
next
  let ?items = "fetch_files_and_dirs' sys Replica (replica st)"
  assume c: "clean (cleanup_replica' sys s ?items st)" and q: "q \<noteq> []"
  have f: "?items = fetch_files_and_dirs (replica st)"
    using assms(2) by (simp add: fetch'_answered)
  from c obtain st' where loop: "cleanup_replica' sys s ?items st = (None, st')"
    and nw: "filter is_warning (logged st') = []"
    by (cases "cleanup_replica' sys s ?items st") (auto simp: clean_def)
  from loop f
  have loop': "cleanup_replica' sys s (fetch_files_and_dirs (replica st)) st = (None, st')"
    by simp
  from cleanup_replica'_clean [OF loop' nw assms(1)]
  have eq: "cleanup_replica' sys s ?items st
      = cleanup_replica (refuses sys) s (fetch_files_and_dirs (replica st)) st"
    by (simp add: loop' f)
  with c have "clean (cleanup_replica (refuses sys) s (fetch_files_and_dirs (replica st)) st)"
    by simp
  with cleanup_clean_result [of "refuses sys" s p st q] q eq
  show "stat (replica (snd (cleanup_replica' sys s ?items st))) q =
          (if path_exists s q then stat (replica st) q else None)"
    by simp
qed

theorem pruner_of_answered_pass_witness:
  "clean (cleanup_item' (plain_os no_faults) (Dir [(''keep'', Dir [])]) [''old'']
       \<lparr>replica = Dir [(''keep'', Dir []), (''old'', Dir [(''x'', File [7] 0)])], logged = []\<rparr>)
   \<and> snd (cleanup_item' (plain_os no_faults) (Dir [(''keep'', Dir [])]) [''old'']
       \<lparr>replica = Dir [(''keep'', Dir []), (''old'', Dir [(''x'', File [7] 0)])], logged = []\<rparr>)
     = \<lparr>replica = Dir [(''keep'', Dir [])], logged = [Debug (RemoveDir [''old''])]\<rparr>
   \<and> clean (cleanup_replica' (plain_os no_faults) (Dir [(''keep'', Dir [])])
       (fetch_files_and_dirs' (plain_os no_faults) Replica
          (Dir [(''keep'', Dir []), (''old'', Dir [(''x'', File [7] 0)])]))
       \<lparr>replica = Dir [(''keep'', Dir []), (''old'', Dir [(''x'', File [7] 0)])], logged = []\<rparr>)
   \<and> stat (replica (snd (cleanup_replica' (plain_os no_faults) (Dir [(''keep'', Dir [])])
       (fetch_files_and_dirs' (plain_os no_faults) Replica
          (Dir [(''keep'', Dir []), (''old'', Dir [(''x'', File [7] 0)])]))
       \<lparr>replica = Dir [(''keep'', Dir []), (''old'', Dir [(''x'', File [7] 0)])], logged = []\<rparr>)))
       [''old'', ''x''] = None"
proof -
  let ?s = "Dir [(''keep'', Dir [])]"
  let ?r = "Dir [(''keep'', Dir []), (''old'', Dir [(''x'', File [7] 0)])]"
  let ?st = "\<lparr>replica = ?r, logged = []\<rparr>"
  let ?sys = "plain_os no_faults"
  have a: "\<forall>sd q. \<not> stat_refused ?sys sd q" "\<forall>sd q. \<not> listing_refused ?sys sd q"
    by (simp_all add: plain_os_def)
  have c1: "clean (cleanup_item' ?sys ?s [''old''] ?st)"
    by code_simp
  have c2: "clean (cleanup_replica' ?sys ?s (fetch_files_and_dirs' ?sys Replica ?r) ?st)"
    by code_simp
  have e1: "\<not> path_exists ?s [''old''] \<and> path_exists ?r [''old''] \<and> isdir ?r [''old'']"
    by code_simp
  have e2: "\<not> path_exists ?s [''old'', ''x'']"
    by code_simp
  have e3: "unlink ?r [''old''] = ?s"
    by code_simp
  have q: "[''old'', ''x''] \<noteq> ([] :: path)" by simp
  from pruner_of_answered_pass [OF a, of ?s "[''old'']" ?st "[''old'', ''x'']"] c1 c2 e1 e2 e3 q
  show ?thesis by (simp add: log_debug_def)
qed

text \<open>
  As stated the claim fails: a removal refused with a permission error is logged and
  skipped, the loop runs to its end, and the entry, absent from the source, is still in
  the replica.
\<close>

theorem pruner_counterexample:
  "fst (cleanup_replica' (plain_os (no_faults(Remove [''extra''] := Some PermissionError)))
         (Dir [])
         (fetch_files_and_dirs' (plain_os (no_faults(Remove [''extra''] := Some PermissionError)))
            Replica (Dir [(''extra'', File [] 0)]))
         \<lparr>replica = Dir [(''extra'', File [] 0)], logged = []\<rparr>) = None
   \<and> \<not> path_exists (Dir []) [''extra'']
   \<and> path_exists (replica (snd (cleanup_replica'
         (plain_os (no_faults(Remove [''extra''] := Some PermissionError))) (Dir [])
         (fetch_files_and_dirs' (plain_os (no_faults(Remove [''extra''] := Some PermissionError)))
            Replica (Dir [(''extra'', File [] 0)]))
         \<lparr>replica = Dir [(''extra'', File [] 0)], logged = []\<rparr>))) [''extra'']"
  by code_simp

subsection \<open>Idempotence\<close>



subsection \<open>Content-only equality\<close>




subsection \<open>A source file over a replica directory\<close>

lemma update_item_file_over_dir:
  assumes "stat s p = Some (EFile bs m)" and "stat (replica st) p = Some EDir"
  shows "\<exists>e. update_item flt s p st = (Some e, st)
     \<and> (flt (OpenRead Source p) = None \<and> flt (OpenRead Replica p) = None
          \<longrightarrow> e = IsADirectoryError)"
proof -
  from assms(1) have ls: "lookup s p = Some (File bs m)" by (simp add: lookup_File_stat)
  from assms(2) obtain es where lr: "lookup (replica st) p = Some (Dir es)"
    using stat_cases [of "replica st" p] by auto
  from assms(1) have nd: "\<not> isdir s p" by (simp add: isdir_stat)
  from assms(2) have ex: "path_exists (replica st) p" by (simp add: path_exists_stat)
  show ?thesis
    using nd ex ls lr
    by (cases "flt (OpenRead Source p)"; cases "flt (OpenRead Replica p)")
       (simp_all add: update_item_def files_equal_def generate_md5_def open_read_def)
qed

lemma put_file_not_on_dir: "put_file t p bs m = Inr t' \<Longrightarrow> stat t p \<noteq> Some EDir"
proof (induction t p bs m arbitrary: t' rule: put_file.induct)
  case (3 es n bs m)
  then show ?case
    by (auto simp: stat_Dir_Cons split: option.splits node.splits)
next
  case (4 es n v va bs m)
  then show ?case
    by (auto simp: stat_Dir_Cons split: option.splits sum.splits)
qed simp_all

lemma update_item_keeps_dir:
  assumes "update_item flt s q st = (ex, st')" and "stat (replica st) p = Some EDir"
  shows "stat (replica st') p = Some EDir"
  using update_item_effect [OF assms(1)]
proof (elim disjE exE conjE)
  assume "replica st' = replica st"
  with assms(2) show ?thesis by simp
next
  assume "makedirs (replica st) q = Inr (replica st')"
  from stat_makedirs [OF this, of p] assms(2) show ?thesis by simp
next
  fix bs m assume pf: "put_file (replica st) q bs m = Inr (replica st')"
  from put_file_not_on_dir [OF pf] assms(2) have "p \<noteq> q" by auto
  with stat_put_file [OF pf, of p] assms(2) show ?thesis by simp
qed

lemma update_replica_file_over_dir:
  "p \<in> set items \<Longrightarrow> stat s p = Some (EFile bs m) \<Longrightarrow> stat (replica st) p = Some EDir \<Longrightarrow>
   \<exists>e st'. update_replica flt s items st = (Some e, st') \<and> stat (replica st') p = Some EDir"
proof (induction items arbitrary: st)
  case Nil
  then show ?case by simp
next
  case (Cons q items)
  obtain ex1 st1 where step: "update_item flt s q st = (ex1, st1)" by force
  have d1: "stat (replica st1) p = Some EDir"
    using update_item_keeps_dir [OF step Cons.prems(3)] .
  show ?case
  proof (cases ex1)
    case (Some e)
    with step d1 show ?thesis by simp
  next
    case None
    have "q \<noteq> p"
    proof
      assume "q = p"
      with update_item_file_over_dir [OF Cons.prems(2,3), of flt] step None
      show False by auto
    qed
    with Cons.prems(1) have "p \<in> set items" by simp
    from Cons.IH [OF this Cons.prems(2) d1] step None show ?thesis by simp
  qed
qed

text \<open>
  Claim C9.  When a file of the source has a directory at its path in the replica, the
  step of \<^verbatim>\<open>update_replica\<close> for that file calls \<^verbatim>\<open>files_equal\<close>, whose second
  \<^verbatim>\<open>generate_md5\<close> opens the directory: the step raises, \<^verbatim>\<open>IsADirectoryError\<close>
  when the environment lets both paths be opened, and nothing catches it.  The pass
  therefore ends with an exception and the replica still has the directory.
\<close>

theorem file_over_directory_raises:
  assumes "stat s p = Some (EFile bs m)" and "p \<noteq> []" and "isdir (replica st) p"
  shows "(\<exists>e. update_item flt s p st = (Some e, st)
            \<and> (flt (OpenRead Source p) = None \<and> flt (OpenRead Replica p) = None
                 \<longrightarrow> e = IsADirectoryError \<and> e \<noteq> PermissionError))
     \<and> fst (synchronize_directories flt s st) \<noteq> None
     \<and> isdir (replica (snd (synchronize_directories flt s st))) p"
proof -
  from assms(3) have d: "stat (replica st) p = Some EDir" by (simp add: isdir_stat)
  from assms(1,2) have "p \<in> set (fetch_files_and_dirs s)"
    by (intro fetch_complete) simp_all
  from update_replica_file_over_dir [OF this assms(1) d, of flt] obtain e st' where
    "update_replica flt s (fetch_files_and_dirs s) st = (Some e, st')"
    and "stat (replica st') p = Some EDir"
    by blast
  then have "fst (synchronize_directories flt s st) \<noteq> None
     \<and> isdir (replica (snd (synchronize_directories flt s st))) p"
    by (simp add: synchronize_directories_def isdir_stat)
  with update_item_file_over_dir [OF assms(1) d, of flt] show ?thesis by auto
qed

theorem file_over_directory_raises_witness:
  "stat (Dir [(''a'', File [1] 0)]) [''a''] = Some (EFile [1] 0)
   \<and> isdir (Dir [(''a'', Dir [(''x'', File [] 0)])]) [''a'']
   \<and> update_item no_faults (Dir [(''a'', File [1] 0)]) [''a'']
        \<lparr>replica = Dir [(''a'', Dir [(''x'', File [] 0)])], logged = []\<rparr>
      = (Some IsADirectoryError, \<lparr>replica = Dir [(''a'', Dir [(''x'', File [] 0)])], logged = []\<rparr>)
   \<and> fst (synchronize_directories no_faults (Dir [(''a'', File [1] 0)])
        \<lparr>replica = Dir [(''a'', Dir [(''x'', File [] 0)])], logged = []\<rparr>) \<noteq> None
   \<and> isdir (replica (snd (synchronize_directories no_faults (Dir [(''a'', File [1] 0)])
        \<lparr>replica = Dir [(''a'', Dir [(''x'', File [] 0)])], logged = []\<rparr>))) [''a'']"
proof -
  let ?s = "Dir [(''a'', File [1] 0)]"
  let ?st = "\<lparr>replica = Dir [(''a'', Dir [(''x'', File [] 0)])], logged = []\<rparr>"
  have a: "stat ?s [''a''] = Some (EFile [1] 0)" by code_simp
  have b: "isdir (replica ?st) [''a'']" by code_simp
  have n: "[''a''] \<noteq> ([] :: path)" by simp
  have r: "no_faults (OpenRead Source [''a'']) = None \<and> no_faults (OpenRead Replica [''a'']) = None"
    by (simp add: no_faults_def)
  from file_over_directory_raises [OF a n b, of no_faults] a b r show ?thesis by auto
qed

subsection \<open>Errors of the comparison\<close>

text \<open>
  Whatever \<^verbatim>\<open>files_equal\<close> raises leaves \<^verbatim>\<open>update_replica\<close>: the comparison is
  made in the condition of the \<^verbatim>\<open>if\<close>, before the \<^verbatim>\<open>try\<close>.  This holds for a read
  error of the device and for a permission error alike.
\<close>

lemma comparison_error_ends_update:
  assumes "\<not> isdir' sys Source s p" and "path_exists' sys Replica (replica st) p"
    and "files_equal (refuses sys) s p (replica st) p = Inl e"
  shows "update_replica' sys s (p # items) st = (Some e, st)"
  using assms by (simp add: update_item'_def)

text \<open>
  Claim C5.  The four mutations are guarded: refused with a permission error, each is
  logged as a warning and the loop goes on.  The comparison is not.  So a source file that
  cannot be opened is a warning when the replica has no file at its path (\<^verbatim>\<open>copy2\<close>,
  inside the \<^verbatim>\<open>try\<close>, is refused before it has written anything), and ends the loop
  when the replica has one (\<^verbatim>\<open>files_equal\<close> raises): no warning is logged and the
  entries after it are not processed.
\<close>

theorem unreadable_source_file_ends_update:
  "update_replica'
       (plain_os (no_faults(OpenRead Source [''a''] := Some PermissionError,
                            Copy2 [''a''] [''a''] := Some PermissionError)))
       (Dir [(''a'', File [1] 0), (''b'', File [2] 0)]) [[''a''], [''b'']]
       \<lparr>replica = Dir [(''a'', File [9] 0)], logged = []\<rparr>
     = (Some PermissionError, \<lparr>replica = Dir [(''a'', File [9] 0)], logged = []\<rparr>)
   \<and> update_replica'
       (plain_os (no_faults(OpenRead Source [''a''] := Some PermissionError,
                            Copy2 [''a''] [''a''] := Some PermissionError)))
       (Dir [(''a'', File [1] 0), (''b'', File [2] 0)]) [[''a''], [''b'']]
       \<lparr>replica = Dir [], logged = []\<rparr>
     = (None, \<lparr>replica = Dir [(''b'', File [2] 0)],
                logged = [Warning (CopyFile [''a'']), Debug (CopyFile [''b''])]\<rparr>)"
  by code_simp

text \<open>
  An enumeration that fails does not end the pass either: \<^verbatim>\<open>os.walk\<close> skips a
  directory it cannot list, and a root it cannot list yields the empty enumeration.
\<close>

lemma unlistable_root_is_enumerated_empty:
  "listing_refused sys sd [] \<Longrightarrow> fetch_files_and_dirs' sys sd t = []"
  by (cases t) (simp_all add: fetch_files_and_dirs'_def)

subsection \<open>Start-up\<close>









subsection \<open>The scheduler\<close>

lemma filter_id_at_most_one:
  "(\<forall>i<length xs. xs ! i \<longrightarrow> i = k) \<Longrightarrow> length (filter (\<lambda>b. b) xs) \<le> 1"
proof (induction xs arbitrary: k)
  case Nil
  then show ?case by simp
next
  case (Cons x xs)
  show ?case
  proof (cases k)
    case 0
    have "filter (\<lambda>b. b) xs = []"
    proof (rule ccontr)
      assume "filter (\<lambda>b. b) xs \<noteq> []"
      then obtain i where "i < length xs" "xs ! i"
        by (auto simp: filter_empty_conv in_set_conv_nth)
      with Cons.prems [rule_format, of "Suc i"] 0 show False by simp
    qed
    then show ?thesis by simp
  next
    case (Suc k')
    from Cons.prems [rule_format, of 0] Suc have "\<not> x" by auto
    moreover have "\<forall>i<length xs. xs ! i \<longrightarrow> i = k'"
      using Cons.prems [rule_format, of "Suc i" for i] Suc by auto
    from Cons.IH [OF this] have "length (filter (\<lambda>b. b) xs) \<le> 1" .
    ultimately show ?thesis by simp
  qed
qed

lemma one_worker_running: "one_worker s \<Longrightarrow> running s \<le> 1"
  unfolding running_def id_def
  by (rule filter_id_at_most_one [where k = "t_thread s"])
     (simp add: one_worker_def is_alive_def)

lemma one_worker_run_start: "one_worker (run_start now)"
  by (auto simp: one_worker_def run_start_def start_thread_def is_alive_def)

lemma one_worker_loop_body: "one_worker s \<Longrightarrow> one_worker (loop_body period c s)"
  by (auto simp: one_worker_def loop_body_def start_thread_def is_alive_def nth_append
           split: if_splits)

lemma one_worker_finish: "one_worker s \<Longrightarrow> one_worker (s\<lparr>threads := (threads s)[i := False]\<rparr>)"
proof -
  assume a: "one_worker s"
  have "is_alive (s\<lparr>threads := (threads s)[i := False]\<rparr>) j \<Longrightarrow> is_alive s j" for j
    by (cases "i = j") (auto simp: is_alive_def)
  with a show ?thesis by (auto simp: one_worker_def)
qed

lemma one_worker_run: "one_worker s \<Longrightarrow> one_worker (run period s evs)"
proof (induction evs arbitrary: s)
  case Nil
  then show ?case by simp
next
  case (Cons ev evs)
  then show ?case
    by (cases ev) (simp_all add: one_worker_loop_body one_worker_finish)
qed

text \<open>
  Claim C4.  Whatever the period (zero and negative values included), whatever the times
  at which the loop wakes up and whenever the workers end, at most one pass is executing
  after any sequence of events: a thread is started only by an iteration that found the
  previous one not alive.
\<close>

theorem at_most_one_pass_running:
  "running (run period (run_start now) evs) \<le> 1
   \<and> (dispatched (loop_body period c s) \<noteq> dispatched s \<longrightarrow> \<not> is_alive s (t_thread s))"
proof
  show "running (run period (run_start now) evs) \<le> 1"
    by (intro one_worker_running one_worker_run one_worker_run_start)
  show "dispatched (loop_body period c s) \<noteq> dispatched s \<longrightarrow> \<not> is_alive s (t_thread s)"
    by (auto simp: loop_body_def dispatched_def)
qed

theorem at_most_one_pass_running_witness:
  "running (run 0 (run_start 0) [Tick 1000000, Tick 2000000, Finish 0, Tick 3000000, Tick 4000000])
     \<le> 1
   \<and> dispatched (loop_body 0 3000000
         (run 0 (run_start 0) [Tick 1000000, Tick 2000000, Finish 0]))
       \<noteq> dispatched (run 0 (run_start 0) [Tick 1000000, Tick 2000000, Finish 0])
   \<and> \<not> is_alive (run 0 (run_start 0) [Tick 1000000, Tick 2000000, Finish 0])
          (t_thread (run 0 (run_start 0) [Tick 1000000, Tick 2000000, Finish 0]))"
proof -
  let ?s = "run 0 (run_start 0) [Tick 1000000, Tick 2000000, Finish 0]"
  have d: "dispatched (loop_body 0 3000000 ?s) \<noteq> dispatched ?s"
    by code_simp
  from at_most_one_pass_running [of 0 0
      "[Tick 1000000, Tick 2000000, Finish 0, Tick 3000000, Tick 4000000]" 3000000 ?s] d
  show ?thesis by blast
qed




end
